theory Spec2Isabelle
  imports Complex_Main "HOL-Library.Log_Nat"
begin

section \<open>64-bit floats\<close>

text \<open>
  A numeric cell of the inventory table holds a 64-bit float: the missing-value sentinel
  \<open>np.nan\<close>, an infinity (\<open>pd.to_numeric\<close> keeps \<open>inf\<close>), or a finite number. A cell
  of a column of whole numbers counts as the float of the same value; below \<open>2^53\<close> the
  two arithmetics agree. The sign of zero is not represented: the comparisons, the
  conversion to an integer and the results of the operations, as they are used here, do
  not depend on it.
\<close>

datatype float64 = NaN64 | NInf | Fin real | PInf

text \<open>\<open>pd.isna\<close> on a float.\<close>

fun pd_isna :: "float64 \<Rightarrow> bool" where
  "pd_isna NaN64 = True"
| "pd_isna _ = False"

text \<open>Rounding a real to the nearest integer, ties to the even one.\<close>

definition round_even :: "real \<Rightarrow> int" where
  "round_even x =
     (let f = \<lfloor>x\<rfloor>; d = x - of_int f
      in if d < 1 / 2 then f
         else if 1 / 2 < d then f + 1
         else if even f then f else f + 1)"

text \<open>
  Rounding to the 64-bit format works on magnitudes counted in units of \<open>2^-1074\<close>, the
  smallest positive float. A magnitude below \<open>2^53\<close> units is rounded to a whole number of
  units; a magnitude with \<open>b > 53\<close> binary digits before the point keeps its leading 53
  digits, so it is rounded to a multiple of \<open>2^(b - 53)\<close> units. A result of \<open>2^2098\<close>
  units, that is \<open>2^1024\<close>, or more is an infinity.
\<close>

definition ulp_units :: "real \<Rightarrow> real" where
  "ulp_units X = 2 ^ nat (bitlen \<lfloor>X\<rfloor> - 53)"

definition round_units :: "real \<Rightarrow> real" where
  "round_units X = of_int (round_even (X / ulp_units X)) * ulp_units X"

definition scale :: real where
  "scale = 2 ^ 1074"

definition overflow_units :: real where
  "overflow_units = 2 ^ 2098"

definition rnd :: "real \<Rightarrow> float64" where
  "rnd x =
     (let R = round_units (\<bar>x\<bar> * scale)
      in if overflow_units \<le> R then (if 0 < x then PInf else NInf)
         else Fin ((if 0 < x then R else - R) / scale))"

text \<open>The arithmetic of the format: the exact result, rounded; the special cases first.\<close>

fun fsub :: "float64 \<Rightarrow> float64 \<Rightarrow> float64" where
  "fsub (Fin a) (Fin b) = rnd (a - b)"
| "fsub NaN64 _ = NaN64"
| "fsub _ NaN64 = NaN64"
| "fsub PInf PInf = NaN64"
| "fsub NInf NInf = NaN64"
| "fsub PInf _ = PInf"
| "fsub NInf _ = NInf"
| "fsub _ PInf = NInf"
| "fsub _ NInf = PInf"

fun fmul :: "float64 \<Rightarrow> float64 \<Rightarrow> float64" where
  "fmul (Fin a) (Fin b) = rnd (a * b)"
| "fmul NaN64 _ = NaN64"
| "fmul _ NaN64 = NaN64"
| "fmul (Fin a) PInf = (if a = 0 then NaN64 else if 0 < a then PInf else NInf)"
| "fmul (Fin a) NInf = (if a = 0 then NaN64 else if 0 < a then NInf else PInf)"
| "fmul PInf (Fin b) = (if b = 0 then NaN64 else if 0 < b then PInf else NInf)"
| "fmul NInf (Fin b) = (if b = 0 then NaN64 else if 0 < b then NInf else PInf)"
| "fmul PInf PInf = PInf"
| "fmul NInf NInf = PInf"
| "fmul PInf NInf = NInf"
| "fmul NInf PInf = NInf"

text \<open>
  The source divides by \<open>3\<close> and by a multiple that it has tested to be positive; a zero
  divisor, which it never passes, is taken as the positive zero.
\<close>

fun fdiv :: "float64 \<Rightarrow> float64 \<Rightarrow> float64" where
  "fdiv (Fin a) (Fin b) =
     (if b = 0 then (if a = 0 then NaN64 else if 0 < a then PInf else NInf)
      else rnd (a / b))"
| "fdiv NaN64 _ = NaN64"
| "fdiv _ NaN64 = NaN64"
| "fdiv (Fin a) _ = Fin 0"
| "fdiv PInf (Fin b) = (if 0 \<le> b then PInf else NInf)"
| "fdiv NInf (Fin b) = (if 0 \<le> b then NInf else PInf)"
| "fdiv _ _ = NaN64"

text \<open>\<open>np.ceil\<close>; the ceiling of a finite float is a float.\<close>

fun np_ceil :: "float64 \<Rightarrow> float64" where
  "np_ceil (Fin a) = Fin (of_int \<lceil>a\<rceil>)"
| "np_ceil x = x"

text \<open>Comparisons: false as soon as one side is \<open>np.nan\<close>.\<close>

fun flt :: "float64 \<Rightarrow> float64 \<Rightarrow> bool" where
  "flt (Fin a) (Fin b) = (a < b)"
| "flt NaN64 _ = False"
| "flt _ NaN64 = False"
| "flt PInf _ = False"
| "flt _ NInf = False"
| "flt _ _ = True"

fun fle :: "float64 \<Rightarrow> float64 \<Rightarrow> bool" where
  "fle (Fin a) (Fin b) = (a \<le> b)"
| "fle NaN64 _ = False"
| "fle _ NaN64 = False"
| "fle NInf _ = True"
| "fle _ PInf = True"
| "fle _ _ = False"

definition fgt :: "float64 \<Rightarrow> float64 \<Rightarrow> bool" where
  "fgt a b = flt b a"

definition fge :: "float64 \<Rightarrow> float64 \<Rightarrow> bool" where
  "fge a b = fle b a"

text \<open>Python's built-in \<open>max(a, b)\<close>: the first argument unless the second is greater.\<close>

definition py_max :: "float64 \<Rightarrow> float64 \<Rightarrow> float64" where
  "py_max a b = (if fgt b a then b else a)"

datatype error = ValueError | KeyError | OverflowError | TypeError

text \<open>
  Python's \<open>int(x)\<close> on a float: truncation towards zero; it raises \<open>OverflowError\<close> on an
  infinity and \<open>ValueError\<close> on \<open>np.nan\<close>.
\<close>

fun py_int :: "float64 \<Rightarrow> error + int" where
  "py_int (Fin a) = Inr (if 0 \<le> a then \<lfloor>a\<rfloor> else \<lceil>a\<rceil>)"
| "py_int NaN64 = Inl ValueError"
| "py_int _ = Inl OverflowError"

section \<open>Rows of the inventory table\<close>

text \<open>
  The application converts the columns of \<open>numeric_cols\<close> with
  \<open>pd.to_numeric(..., errors='coerce')\<close>, so their cells are floats. It leaves every other
  column as read: a cell of a forecast column is a float or a piece of text. The names of
  the forecast columns end with the configured suffix; those of the numeric columns do not.
\<close>

datatype entry = Float float64 | Text string

record row =
  quantities :: "string \<rightharpoonup> float64"
  forecasts :: "string \<rightharpoonup> entry"

text \<open>\<open>row.get(key, default)\<close>, on a numeric column and on a forecast column.\<close>

definition row_get :: "row \<Rightarrow> string \<Rightarrow> float64 \<Rightarrow> float64" where
  "row_get row key dflt = (case quantities row key of None \<Rightarrow> dflt | Some v \<Rightarrow> v)"

definition forecast_get :: "row \<Rightarrow> string \<Rightarrow> entry \<Rightarrow> entry" where
  "forecast_get row col dflt = (case forecasts row col of None \<Rightarrow> dflt | Some v \<Rightarrow> v)"

section \<open>Status classifier and reorder suggester (inventory_utils.py)\<close>

text \<open>The five status strings returned by \<open>assess_status\<close>.\<close>

datatype status =
    Critical_Below_Min
  | Reorder_Level
  | Overstocked
  | Healthy
  | Missing_SOH

definition assess_status :: "row \<Rightarrow> status" where
  "assess_status row =
     (let soh = row_get row ''SOH'' NaN64;
          min_qty = row_get row ''Min Qty'' NaN64;
          max_qty = row_get row ''Max Qty'' NaN64
      in if pd_isna soh then Missing_SOH
         else if pd_isna min_qty \<or> pd_isna max_qty then Missing_SOH
         else
           let reorder_threshold = fsub max_qty (fdiv (fsub max_qty min_qty) (Fin 3))
           in if flt soh min_qty then Critical_Below_Min
              else if flt soh reorder_threshold then Reorder_Level
              else if fgt soh max_qty then Overstocked
              else Healthy)"

text \<open>
  \<open>suggest_reorder\<close> returns \<open>None\<close> or \<open>int(base)\<close>; the conversion \<open>int\<close> is the only
  operation of the function that can raise.
\<close>

definition suggest_reorder :: "row \<Rightarrow> error + int option" where
  "suggest_reorder row =
     (let soh = row_get row ''SOH'' NaN64;
          min_qty = row_get row ''Min Qty'' NaN64;
          max_qty = row_get row ''Max Qty'' NaN64;
          moq = row_get row ''MOQ'' NaN64;
          minor_mult = row_get row ''Minor Order Multiple'' NaN64
      in if pd_isna soh \<or> pd_isna min_qty \<or> pd_isna max_qty \<or> pd_isna moq then Inr None
         else
           let reorder_threshold = fsub max_qty (fdiv (fsub max_qty min_qty) (Fin 3))
           in if flt soh reorder_threshold then
                let base = py_max moq (fsub min_qty soh);
                    base = (if \<not> pd_isna minor_mult \<and> fgt minor_mult (Fin 0)
                            then fmul (np_ceil (fdiv base minor_mult)) minor_mult
                            else base)
                in (case py_int base of
                      Inl e \<Rightarrow> Inl e
                    | Inr n \<Rightarrow> Inr (Some n))
              else Inr None)"

text \<open>The value of a numeric column when it is present.\<close>

definition field :: "row \<Rightarrow> string \<Rightarrow> float64 option" where
  "field row key =
     (let v = row_get row key NaN64 in if pd_isna v then None else Some v)"

subsection \<open>The rules as the specification words them\<close>

text \<open>The reorder threshold \<open>max - (max - min) / 3\<close>, in float arithmetic.\<close>

definition reorder_threshold_spec :: "float64 \<Rightarrow> float64 \<Rightarrow> float64" where
  "reorder_threshold_spec mn mx = fsub mx (fdiv (fsub mx mn) (Fin 3))"

definition assess_status_spec ::
  "float64 option \<Rightarrow> float64 option \<Rightarrow> float64 option \<Rightarrow> status" where
  "assess_status_spec on_hand mn mx =
     (case on_hand of
        None \<Rightarrow> Missing_SOH
      | Some s \<Rightarrow>
          (case (mn, mx) of
             (Some a, Some b) \<Rightarrow>
               if flt s a then Critical_Below_Min
               else if flt s (reorder_threshold_spec a b) then Reorder_Level
               else if fgt s b then Overstocked
               else Healthy
           | _ \<Rightarrow> Missing_SOH))"

text \<open>
  Rounding up to a multiple of the minor order multiple: ceiling division times the
  multiple, when the multiple is present and positive.
\<close>

definition round_up_spec :: "float64 option \<Rightarrow> float64 \<Rightarrow> float64" where
  "round_up_spec mult base =
     (case mult of
        None \<Rightarrow> base
      | Some m \<Rightarrow> if fgt m (Fin 0) then fmul (np_ceil (fdiv base m)) m else base)"

text \<open>
  Truncation to an integer drops the fractional part of a finite quantity; an infinite
  quantity and \<open>np.nan\<close> have no integer, and the conversion raises.
\<close>

definition truncate_spec :: "float64 \<Rightarrow> error + int option" where
  "truncate_spec x =
     (case x of
        Fin r \<Rightarrow> Inr (Some (if 0 \<le> r then \<lfloor>r\<rfloor> else \<lceil>r\<rceil>))
      | NaN64 \<Rightarrow> Inl ValueError
      | _ \<Rightarrow> Inl OverflowError)"

definition suggest_reorder_spec ::
  "float64 option \<Rightarrow> float64 option \<Rightarrow> float64 option \<Rightarrow> float64 option \<Rightarrow>
   float64 option \<Rightarrow> error + int option" where
  "suggest_reorder_spec on_hand mn mx moq mult =
     (case (on_hand, mn, mx, moq) of
        (Some s, Some a, Some b, Some q) \<Rightarrow>
          if flt s (reorder_threshold_spec a b)
          then truncate_spec (round_up_spec mult (py_max q (fsub a s)))
          else Inr None
      | _ \<Rightarrow> Inr None)"

section \<open>Forecast coverage simulation (inventory_utils.py)\<close>

text \<open>The two cell contents written by \<open>simulate_runout\<close>: the check mark and the empty string.\<close>

datatype mark = Check_Mark | Empty_Mark

text \<open>\<open>result.append(m)\<close> ahead of the marks of the remaining periods.\<close>

fun with_mark :: "mark \<Rightarrow> error + float64 \<times> mark list \<Rightarrow> error + float64 \<times> mark list" where
  "with_mark m (Inl e) = Inl e"
| "with_mark m (Inr (remaining, ms)) = Inr (remaining, m # ms)"

text \<open>
  The loop of \<open>simulate_runout\<close>, with the running \<open>remaining_soh\<close> passed along; it
  returns the last value of \<open>remaining_soh\<close> together with the list \<open>result\<close>. \<open>pd.isna\<close> is
  false on text, and comparing a float with text raises \<open>TypeError\<close>.
\<close>

fun sim_loop :: "row \<Rightarrow> float64 \<Rightarrow> string list \<Rightarrow> error + float64 \<times> mark list" where
  "sim_loop row remaining_soh [] = Inr (remaining_soh, [])"
| "sim_loop row remaining_soh (col # cols) =
     (case forecast_get row col (Float NaN64) of
        Float usage \<Rightarrow>
          if pd_isna usage \<or> pd_isna remaining_soh then
            with_mark Empty_Mark (sim_loop row remaining_soh cols)
          else if fge remaining_soh usage then
            with_mark Check_Mark (sim_loop row (fsub remaining_soh usage) cols)
          else
            with_mark Empty_Mark (sim_loop row remaining_soh cols)
      | Text s \<Rightarrow>
          if pd_isna remaining_soh then
            with_mark Empty_Mark (sim_loop row remaining_soh cols)
          else Inl TypeError)"

definition simulate_runout :: "row \<Rightarrow> string list \<Rightarrow> error + mark list" where
  "simulate_runout row forecast_cols =
     (case sim_loop row (row_get row ''SOH'' NaN64) forecast_cols of
        Inl e \<Rightarrow> Inl e
      | Inr (remaining, ms) \<Rightarrow> Inr ms)"

text \<open>
  Monotonic marking: from the first period that is not covered on, no period is covered.
\<close>

fun marks_monotonic :: "mark list \<Rightarrow> bool" where
  "marks_monotonic [] = True"
| "marks_monotonic (Check_Mark # ms) = marks_monotonic ms"
| "marks_monotonic (Empty_Mark # ms) = list_all (\<lambda>m. m = Empty_Mark) ms"

text \<open>The number of periods marked covered before the first one that is not.\<close>

definition covered_prefix :: "mark list \<Rightarrow> nat" where
  "covered_prefix ms = length (takeWhile (\<lambda>m. m = Check_Mark) ms)"

text \<open>No forecast cell of the listed columns is text.\<close>

definition numeric_forecasts :: "row \<Rightarrow> string list \<Rightarrow> bool" where
  "numeric_forecasts row cols =
     list_all (\<lambda>c. case forecasts row c of Some (Text s) \<Rightarrow> False | _ \<Rightarrow> True) cols"

subsection \<open>The coverage rule as the specification words it\<close>

text \<open>
  A period is covered when remaining stock and usage are both present and the remaining
  stock is at least the usage; a covered period decrements the remaining stock by its
  usage, any other period leaves it as it is.
\<close>

definition usage_of :: "row \<Rightarrow> string \<Rightarrow> float64" where
  "usage_of row col =
     (case forecast_get row col (Float NaN64) of Float u \<Rightarrow> u | Text s \<Rightarrow> NaN64)"

definition covered :: "float64 \<Rightarrow> float64 \<Rightarrow> bool" where
  "covered remaining usage = (\<not> pd_isna remaining \<and> \<not> pd_isna usage \<and> fge remaining usage)"

definition cover_step :: "row \<Rightarrow> float64 \<Rightarrow> string \<Rightarrow> float64" where
  "cover_step row remaining col =
     (if covered remaining (usage_of row col) then fsub remaining (usage_of row col)
      else remaining)"

text \<open>The remaining stock before period \<open>i\<close>.\<close>

definition remaining_at :: "row \<Rightarrow> float64 \<Rightarrow> string list \<Rightarrow> nat \<Rightarrow> float64" where
  "remaining_at row soh cols i = foldl (cover_step row) soh (take i cols)"

text \<open>The marks that the rule gives to the periods of a row.\<close>

definition coverage_spec :: "row \<Rightarrow> float64 \<Rightarrow> string list \<Rightarrow> mark list" where
  "coverage_spec row soh cols =
     map (\<lambda>i. if covered (remaining_at row soh cols i) (usage_of row (cols ! i))
              then Check_Mark else Empty_Mark)
       [0..<length cols]"

section \<open>Runout estimate and purchase orders (inventory_health_app.py)\<close>

text \<open>
  A value of the derived column \<open>Runout Period\<close>, which is \<open>np.nan\<close> or the float of a
  period index, and an order quantity of the purchase-order report, which is missing or
  a number.
\<close>

datatype cell = NaN | Num real

fun isna :: "cell \<Rightarrow> bool" where
  "isna NaN = True"
| "isna (Num x) = False"

fun present :: "cell \<Rightarrow> real option" where
  "present NaN = None"
| "present (Num x) = Some x"

text \<open>
  The loop of \<open>estimate_runout\<close>; \<open>i\<close> is the index that \<open>enumerate\<close> gives to the
  head of the remaining columns. Falling out of the loop returns \<open>np.nan\<close>. Subtracting
  text from a float raises \<open>TypeError\<close>.
\<close>

fun runout_loop :: "row \<Rightarrow> float64 \<Rightarrow> nat \<Rightarrow> string list \<Rightarrow> error + cell" where
  "runout_loop row remaining i [] = Inr NaN"
| "runout_loop row remaining i (col # cols) =
     (case forecast_get row col (Float (Fin 0)) of
        Float usage \<Rightarrow>
          if pd_isna usage then runout_loop row remaining (Suc i) cols
          else
            let remaining = fsub remaining usage
            in if fle remaining (Fin 0) then Inr (Num (real i))
               else runout_loop row remaining (Suc i) cols
      | Text s \<Rightarrow> Inl TypeError)"

text \<open>\<open>row['SOH']\<close> raises \<open>KeyError\<close> when the row has no such column.\<close>

definition estimate_runout :: "string list \<Rightarrow> row \<Rightarrow> error + cell" where
  "estimate_runout forecast_cols row =
     (if forecast_cols = [] then Inr NaN
      else
        (case quantities row ''SOH'' of
           None \<Rightarrow> Inl KeyError
         | Some soh \<Rightarrow>
             if fle soh (Fin 0) then Inr NaN
             else runout_loop row soh 0 forecast_cols))"

text \<open>
  The runout estimate as the specification words it: each present usage is subtracted
  from the remaining stock, an absent one is skipped, and the result is the first period
  after which the remaining stock is at most zero.
\<close>

definition runout_step :: "row \<Rightarrow> float64 \<Rightarrow> string \<Rightarrow> float64" where
  "runout_step row remaining col =
     (case forecast_get row col (Float (Fin 0)) of
        Float u \<Rightarrow> if pd_isna u then remaining else fsub remaining u
      | Text s \<Rightarrow> remaining)"



text \<open>
  For the comparison of the two simulations: the stock left after subtracting the usages
  of the periods before \<open>j\<close>, and the rows whose cells are finite floats. A finite float
  is a whole number of units of \<open>2^-1074\<close>.
\<close>

definition running_stock :: "row \<Rightarrow> float64 \<Rightarrow> string list \<Rightarrow> nat \<Rightarrow> float64" where
  "running_stock row soh cols j = foldl fsub soh (map (usage_of row) (take j cols))"

fun finite_float :: "float64 \<Rightarrow> bool" where
  "finite_float (Fin x) = (of_int \<lfloor>x * scale\<rfloor> = x * scale)"
| "finite_float _ = False"

definition finite_forecasts :: "row \<Rightarrow> string list \<Rightarrow> bool" where
  "finite_forecasts row cols =
     list_all (\<lambda>c. case forecasts row c of Some (Float u) \<Rightarrow> finite_float u | _ \<Rightarrow> False) cols"

text \<open>
  A timestamp is the number of days since some epoch, as a real; \<open>normalize\<close> sets the
  time of day to midnight. The current time is a parameter of \<open>mitigates_oos\<close>, which
  reads the two derived columns \<open>Runout Period\<close> and \<open>Next PO Arrival\<close> of its row; a
  missing arrival (\<open>None\<close> or \<open>NaT\<close>) is \<open>None\<close>.
\<close>

datatype mitigation = Yes | No | Not_Applicable

definition normalize :: "real \<Rightarrow> real" where
  "normalize t = of_int \<lfloor>t\<rfloor>"

definition mitigates_oos :: "real \<Rightarrow> cell \<Rightarrow> real option \<Rightarrow> mitigation" where
  "mitigates_oos now runout_period next_po_arrival =
     (case (runout_period, next_po_arrival) of
        (Num p, Some arrival) \<Rightarrow>
          (let today = normalize now;
               runout_date = today + 7 * p
           in if arrival \<le> runout_date then Yes else No)
      | _ \<Rightarrow> Not_Applicable)"

text \<open>
  A line of the purchase-order report: the raw \<open>SKU Code\<close> cell (\<open>None\<close> when the cell is
  empty), the \<open>Order Qty\<close> after \<open>pd.to_numeric\<close>, and the \<open>Expected Delivery Date\<close>
  after \<open>pd.to_datetime(..., errors='coerce')\<close> (\<open>None\<close> when it did not parse).
\<close>

record po_line =
  sku_code :: "string option"
  order_qty :: cell
  delivery_date :: "real option"

text \<open>
  \<open>Series.astype(str)\<close> applies \<open>str\<close> to every element; a missing value becomes the
  three-letter string \<open>nan\<close>, so the resulting column has no missing value. (This is the
  behaviour of pandas before 3.0, which the application needs for \<open>Styler.applymap\<close>.)
\<close>

definition astype_str :: "string option \<Rightarrow> string option" where
  "astype_str v = (case v of None \<Rightarrow> Some ''nan'' | Some s \<Rightarrow> Some s)"

text \<open>
  The characters that \<open>str.strip\<close> removes, among the code points below 256 (a \<open>char\<close>
  stands for such a code point): the space, the controls \<open>0x09\<close> to \<open>0x0D\<close> and \<open>0x1C\<close>
  to \<open>0x1F\<close>, the next-line control \<open>0x85\<close> and the no-break space \<open>0xA0\<close>.
\<close>

definition is_space :: "char \<Rightarrow> bool" where
  "is_space c = (c \<in> set [CHR '' '', CHR 0x09, CHR 0x0A, CHR 0x0B, CHR 0x0C, CHR 0x0D,
                          CHR 0x1C, CHR 0x1D, CHR 0x1E, CHR 0x1F, CHR 0x85, CHR 0xA0])"

definition strip :: "string \<Rightarrow> string" where
  "strip s = rev (dropWhile is_space (rev (dropWhile is_space s)))"

text \<open>
  The cleaning steps in the order of the source: \<open>astype(str).str.strip()\<close> on the SKU
  code, then \<open>dropna(subset=['SKU Code', 'Expected Delivery Date'])\<close>.
\<close>

definition clean_sku :: "po_line \<Rightarrow> po_line" where
  "clean_sku l = l\<lparr>sku_code := map_option strip (astype_str (sku_code l))\<rparr>"

definition dropna :: "po_line list \<Rightarrow> po_line list" where
  "dropna ls = filter (\<lambda>l. sku_code l \<noteq> None \<and> delivery_date l \<noteq> None) ls"

definition clean_po :: "po_line list \<Rightarrow> po_line list" where
  "clean_po df_po = dropna (map clean_sku df_po)"

definition group :: "po_line list \<Rightarrow> string \<Rightarrow> po_line list" where
  "group ls k = filter (\<lambda>l. sku_code l = Some k) ls"

text \<open>\<open>groupby('SKU Code')['Expected Delivery Date'].min().to_dict()\<close>.\<close>

definition po_next_arrival :: "po_line list \<Rightarrow> (string \<rightharpoonup> real)" where
  "po_next_arrival df_po k =
     (case map (\<lambda>l. the (delivery_date l)) (group (clean_po df_po) k) of
        [] \<Rightarrow> None
      | d # ds \<Rightarrow> Some (fold min ds d))"

text \<open>
  \<open>groupby('SKU Code')['Order Qty'].sum().to_dict()\<close>; the sum skips missing quantities.
\<close>

definition po_next_qty :: "po_line list \<Rightarrow> (string \<rightharpoonup> real)" where
  "po_next_qty df_po k =
     (case group (clean_po df_po) k of
        [] \<Rightarrow> None
      | ls \<Rightarrow> Some (sum_list (map (\<lambda>l. case order_qty l of NaN \<Rightarrow> 0 | Num q \<Rightarrow> q) ls)))"

section \<open>Example rows\<close>

text \<open>On-hand 30, min 50, max 200, minimum order quantity 10, minor multiple 5.\<close>

definition row_a :: row where
  "row_a = \<lparr>quantities = [''SOH'' \<mapsto> Fin 30, ''Min Qty'' \<mapsto> Fin 50, ''Max Qty'' \<mapsto> Fin 200,
                           ''MOQ'' \<mapsto> Fin 10, ''Minor Order Multiple'' \<mapsto> Fin 5],
            forecasts = Map.empty\<rparr>"

text \<open>On-hand below min, with the max quantity missing.\<close>

definition row_no_max :: row where
  "row_no_max = \<lparr>quantities = [''SOH'' \<mapsto> Fin 1, ''Min Qty'' \<mapsto> Fin 5, ''Max Qty'' \<mapsto> NaN64],
                 forecasts = Map.empty\<rparr>"

text \<open>On-hand missing.\<close>

definition row_no_soh :: row where
  "row_no_soh = \<lparr>quantities = [''SOH'' \<mapsto> NaN64, ''Min Qty'' \<mapsto> Fin 50,
                                ''Max Qty'' \<mapsto> Fin 200, ''MOQ'' \<mapsto> Fin 10,
                                ''Minor Order Multiple'' \<mapsto> Fin 5],
                 forecasts = Map.empty\<rparr>"





text \<open>On-hand 100 against three periods of usage 40.\<close>

definition cols_d :: "string list" where
  "cols_d = [''Jan-25'', ''Feb-25'', ''Mar-25'']"

definition row_d :: row where
  "row_d = \<lparr>quantities = [''SOH'' \<mapsto> Fin 100],
            forecasts = [''Jan-25'' \<mapsto> Float (Fin 40), ''Feb-25'' \<mapsto> Float (Fin 40),
                         ''Mar-25'' \<mapsto> Float (Fin 40)]\<rparr>"


text \<open>On-hand 10 against a usage of 20 followed by a usage of 5.\<close>

definition cols_resume :: "string list" where
  "cols_resume = [''Jan-25'', ''Feb-25'']"

definition row_resume :: row where
  "row_resume = \<lparr>quantities = [''SOH'' \<mapsto> Fin 10],
                 forecasts = [''Jan-25'' \<mapsto> Float (Fin 20), ''Feb-25'' \<mapsto> Float (Fin 5)]\<rparr>"

text \<open>On-hand 100 against usages 40, 60, 40: the second period uses up the stock exactly.\<close>

definition row_exact :: row where
  "row_exact = \<lparr>quantities = [''SOH'' \<mapsto> Fin 100],
                forecasts = [''Jan-25'' \<mapsto> Float (Fin 40), ''Feb-25'' \<mapsto> Float (Fin 60),
                             ''Mar-25'' \<mapsto> Float (Fin 40)]\<rparr>"

text \<open>An infinite on-hand quantity against an infinite usage.\<close>

definition cols_one :: "string list" where
  "cols_one = [''Jan-25'']"

definition row_inf :: row where
  "row_inf = \<lparr>quantities = [''SOH'' \<mapsto> PInf],
              forecasts = [''Jan-25'' \<mapsto> Float PInf]\<rparr>"

text \<open>A purchase-order report of one line, with an empty SKU code and a valid date.\<close>

definition po_missing_sku :: "po_line list" where
  "po_missing_sku = [\<lparr>sku_code = None, order_qty = Num 5, delivery_date = Some 100\<rparr>]"

section \<open>Properties of rounding\<close>

lemma round_even_ge: "of_int k \<le> x \<Longrightarrow> k \<le> round_even x"
proof -
  assume "of_int k \<le> x"
  then have "k \<le> \<lfloor>x\<rfloor>" by (simp add: le_floor_iff)
  then show ?thesis by (simp add: round_even_def Let_def)
qed

lemma round_even_of_int: "round_even (of_int k) = k"
  by (simp add: round_even_def Let_def)

lemma ulp_units_pos: "0 < ulp_units X"
  by (simp add: ulp_units_def)


lemma round_units_ge_bitlen:
  assumes "1 \<le> X"
  shows "2 ^ nat (bitlen \<lfloor>X\<rfloor> - 1) \<le> round_units X"
proof -
  let ?F = "\<lfloor>X\<rfloor>" and ?b = "bitlen \<lfloor>X\<rfloor>"
  have F: "0 < ?F" using assms by simp
  then have b1: "1 \<le> ?b" by (simp add: bitlen_ge_iff_power)
  have lo: "(2::int) ^ nat (?b - 1) \<le> ?F" using bitlen_bounds [OF F] by simp
  then have "of_int ((2::int) ^ nat (?b - 1)) \<le> (of_int ?F :: real)" by (simp only: of_int_le_iff)
  then have loX: "2 ^ nat (?b - 1) \<le> X" by (simp add: order_trans [OF _ of_int_floor_le])
  show ?thesis
  proof (cases "?b \<le> 53")
    case True
    then have u: "ulp_units X = 1" by (simp add: ulp_units_def)
    have "?F \<le> round_even X" by (rule round_even_ge) simp
    with lo have "(2::int) ^ nat (?b - 1) \<le> round_even X" by simp
    then have "of_int ((2::int) ^ nat (?b - 1)) \<le> (of_int (round_even X) :: real)"
      by (simp only: of_int_le_iff)
    then show ?thesis by (simp add: round_units_def u)
  next
    case False
    then have split: "nat (?b - 1) = 52 + nat (?b - 53)" by simp
    have u: "ulp_units X = 2 ^ nat (?b - 53)" by (simp add: ulp_units_def)
    have "(2::real) ^ 52 * 2 ^ nat (?b - 53) \<le> X" using loX by (simp add: split power_add)
    then have "of_int (2 ^ 52) \<le> X / ulp_units X" by (simp add: u pos_le_divide_eq)
    then have "2 ^ 52 \<le> round_even (X / ulp_units X)" by (rule round_even_ge)
    then have "of_int (2 ^ 52) \<le> (of_int (round_even (X / ulp_units X)) :: real)"
      by (simp only: of_int_le_iff)
    then have "2 ^ 52 * ulp_units X \<le> round_units X"
      using ulp_units_pos [of X] by (simp add: round_units_def)
    then show ?thesis by (simp add: u split power_add)
  qed
qed

lemma round_units_ge_pow:
  assumes "2 ^ p \<le> X"
  shows "2 ^ p \<le> round_units X"
proof -
  have one: "1 \<le> X" using assms one_le_power [of "2::real" p] by linarith
  have "of_int (2 ^ p) \<le> X" using assms by simp
  then have "2 ^ p \<le> \<lfloor>X\<rfloor>" by (simp only: le_floor_iff)
  moreover have "nat (int p + 1) - 1 = p" by simp
  ultimately have "int p + 1 \<le> bitlen \<lfloor>X\<rfloor>"
    by (simp only: bitlen_ge_iff_power) simp
  then have "p \<le> nat (bitlen \<lfloor>X\<rfloor> - 1)" by simp
  then have "(2::real) ^ p \<le> 2 ^ nat (bitlen \<lfloor>X\<rfloor> - 1)" by (simp add: power_increasing)
  with round_units_ge_bitlen [OF one] show ?thesis by linarith
qed

lemma bitlen_le_54: "0 < n \<Longrightarrow> n \<le> 2 ^ 53 \<Longrightarrow> bitlen n \<le> 54"
  by (simp add: bitlen_le_iff_power)

lemma bitlen_54: "0 < n \<Longrightarrow> n \<le> 2 ^ 53 \<Longrightarrow> \<not> bitlen n \<le> 53 \<Longrightarrow> n = 2 ^ 53"
  by (simp add: bitlen_le_iff_power)

lemma round_units_exact:
  assumes "0 \<le> n" and "n \<le> 2 ^ 53"
  shows "round_units (of_int n * 2 ^ j) = of_int n * 2 ^ j"
proof (cases "n = 0")
  case True
  then show ?thesis by (simp add: round_units_def round_even_def)
next
  case False
  then have n: "0 < n" using assms by simp
  let ?X = "of_int n * (2::real) ^ j"
  have fl: "\<lfloor>?X\<rfloor> = n * 2 ^ j"
  proof -
    have "?X = of_int (n * 2 ^ j)" by simp
    then show ?thesis by (simp only: floor_of_int)
  qed
  have bl: "bitlen \<lfloor>?X\<rfloor> = bitlen n + int j" unfolding fl using n by simp
  show ?thesis
  proof (cases "bitlen n \<le> 53")
    case True
    define t where "t = nat (bitlen n + int j - 53)"
    have "t \<le> j" using True by (simp add: t_def)
    then obtain d where j: "j = t + d" by (auto simp add: le_iff_add)
    have u: "ulp_units ?X = 2 ^ t" by (simp add: ulp_units_def bl t_def)
    have q: "?X / 2 ^ t = of_int (n * 2 ^ d)"
      by (simp add: j power_add)
    show ?thesis
      unfolding round_units_def u q round_even_of_int
      by (simp add: j power_add)
  next
    case False
    have n53: "n = 2 ^ 53" using n assms(2) False by (rule bitlen_54)
    have "bitlen n = 54" unfolding n53 using bitlen_twopow_add_eq [of 0 53] by simp
    then have u: "ulp_units ?X = 2 ^ (j + 1)"
      by (simp add: ulp_units_def bl nat_add_distrib)
    have q: "?X / 2 ^ (j + 1) = of_int (2 ^ 52)" by (simp add: n53)
    show ?thesis unfolding round_units_def u q round_even_of_int by (simp add: n53)
  qed
qed

lemma scale_pos [simp]: "0 < scale"
  by (simp add: scale_def)

lemma scale_nonzero [simp]: "scale \<noteq> 0"
  using scale_pos by linarith

lemma scale_nonneg [simp]: "0 \<le> scale"
  using scale_pos by linarith

lemma overflow_units_pos [simp]: "0 < overflow_units"
  by (simp add: overflow_units_def)

lemma round_units_0 [simp]: "round_units 0 = 0"
  using round_units_exact [of 0 0] by simp

lemma rnd_dyadic:
  assumes "\<bar>n\<bar> \<le> 2 ^ 53" and "j \<le> 1074"
  shows "rnd (of_int n / 2 ^ j) = Fin (of_int n / 2 ^ j)"
proof -
  let ?x = "of_int n / (2::real) ^ j"
  obtain d where d: "1074 = j + d" using assms(2) by (auto simp add: le_iff_add)
  have sc: "scale = 2 ^ j * 2 ^ d" by (simp add: scale_def d power_add)
  have X: "\<bar>?x\<bar> * scale = of_int \<bar>n\<bar> * 2 ^ d"
    by (simp add: sc abs_mult)
  have R: "round_units (\<bar>?x\<bar> * scale) = of_int \<bar>n\<bar> * 2 ^ d"
    unfolding X using assms(1) by (intro round_units_exact) simp_all
  have "of_int \<bar>n\<bar> * (2::real) ^ d \<le> 2 ^ 53 * 2 ^ 1074"
  proof (rule mult_mono)
    have "of_int \<bar>n\<bar> \<le> (of_int (2 ^ 53) :: real)" using assms(1) by (simp only: of_int_le_iff)
    then show "of_int \<bar>n\<bar> \<le> (2::real) ^ 53" by simp
    show "(2::real) ^ d \<le> 2 ^ 1074" using d by (intro power_increasing) simp_all
  qed simp_all
  also have "\<dots> < overflow_units" by (simp add: overflow_units_def)
  finally have small: "\<not> overflow_units \<le> of_int \<bar>n\<bar> * (2::real) ^ d" by simp
  have inv: "of_int \<bar>n\<bar> * (2::real) ^ d / scale = \<bar>?x\<bar>"
    unfolding X [symmetric] by simp
  have "rnd ?x = Fin ((if 0 < ?x then of_int \<bar>n\<bar> * 2 ^ d else - (of_int \<bar>n\<bar> * 2 ^ d)) / scale)"
    unfolding rnd_def Let_def R using small by simp
  also have "(if 0 < ?x then of_int \<bar>n\<bar> * 2 ^ d else - (of_int \<bar>n\<bar> * 2 ^ d)) / scale
      = (if 0 < ?x then \<bar>?x\<bar> else - \<bar>?x\<bar>)"
    using inv by (cases "0 < ?x") simp_all
  also have "\<dots> = ?x" by (simp add: abs_if not_less)
  finally show ?thesis .
qed

lemma rnd_of_int: "\<bar>n\<bar> \<le> 2 ^ 53 \<Longrightarrow> rnd (of_int n) = Fin (of_int n)"
  using rnd_dyadic [of n 0] by simp

lemma rnd_numeral [simp]:
  "(numeral k :: int) \<le> 2 ^ 53 \<Longrightarrow> rnd (numeral k) = Fin (numeral k)"
  using rnd_of_int [of "numeral k"] by simp

lemma rnd_neg_numeral [simp]:
  "(numeral k :: int) \<le> 2 ^ 53 \<Longrightarrow> rnd (- numeral k) = Fin (- numeral k)"
  using rnd_of_int [of "- numeral k"] by simp

lemma rnd_0 [simp]: "rnd 0 = Fin 0"
  using rnd_of_int [of 0] by simp

lemma rnd_1 [simp]: "rnd 1 = Fin 1"
  using rnd_of_int [of 1] by simp

lemma rnd_cases:
  obtains (pinf) "rnd x = PInf" "0 < x"
  | (ninf) "rnd x = NInf" "x < 0"
  | (fin) "rnd x = Fin ((if 0 < x then 1 else - 1) * round_units (\<bar>x\<bar> * scale) / scale)"
proof (cases "overflow_units \<le> round_units (\<bar>x\<bar> * scale)")
  case False
  then have "rnd x = Fin ((if 0 < x then 1 else - 1) * round_units (\<bar>x\<bar> * scale) / scale)"
    by (simp add: rnd_def Let_def)
  then show ?thesis by (rule fin)
next
  case True
  have "x \<noteq> 0"
  proof
    assume "x = 0"
    with True have "overflow_units \<le> 0" by simp
    then show False using overflow_units_pos by linarith
  qed
  then consider "0 < x" | "x < 0" by linarith
  then show ?thesis
  proof cases
    case 1
    with True have "rnd x = PInf" by (simp add: rnd_def Let_def)
    then show ?thesis using 1 by (rule pinf)
  next
    case 2
    with True have "rnd x = NInf" by (simp add: rnd_def Let_def)
    then show ?thesis using 2 by (rule ninf)
  qed
qed

lemma rnd_not_nan [simp]: "rnd x \<noteq> NaN64"
  by (cases x rule: rnd_cases) simp_all


lemma rnd_pos:
  assumes "1 \<le> x * scale"
  shows "flt (Fin 0) (rnd x)"
proof -
  have x: "0 < x"
  proof (rule ccontr)
    assume "\<not> 0 < x"
    then have "x * scale \<le> 0" by (simp add: mult_le_0_iff)
    with assms show False by linarith
  qed
  show ?thesis
  proof (cases x rule: rnd_cases)
    case fin
    have "2 ^ 0 \<le> \<bar>x\<bar> * scale" using assms x by simp
    then have "2 ^ 0 \<le> round_units (\<bar>x\<bar> * scale)" by (rule round_units_ge_pow)
    then show ?thesis using fin x by simp
  next
    case ninf
    then show ?thesis using x by simp
  qed simp_all
qed

lemma rnd_scaled:
  assumes "rnd x = Fin r"
  shows "r * scale = (if 0 < x then 1 else - 1) * round_units (\<bar>x\<bar> * scale)"
proof (cases x rule: rnd_cases)
  case fin
  with assms have "r = (if 0 < x then 1 else - 1) * round_units (\<bar>x\<bar> * scale) / scale" by simp
  then show ?thesis by (simp add: field_simps)
qed (use assms in simp_all)


lemma rnd_grid:
  assumes "rnd x = Fin r"
  shows "r * scale \<in> \<int>"
proof -
  have "round_units (\<bar>x\<bar> * scale) \<in> \<int>" by (simp add: round_units_def ulp_units_def)
  then show ?thesis unfolding rnd_scaled [OF assms] by simp
qed

section \<open>Properties of the classifier and of the reorder suggester\<close>

lemma field_cases:
  "(field row key = None \<and> row_get row key NaN64 = NaN64) \<or>
   (\<exists>x. field row key = Some x \<and> row_get row key NaN64 = x \<and> \<not> pd_isna x)"
  by (cases "row_get row key NaN64") (simp_all add: field_def)

lemma value_of_field: "field row key = Some x \<Longrightarrow> row_get row key NaN64 = x \<and> \<not> pd_isna x"
  using field_cases [of row key] by auto

lemma nan_of_field: "field row key = None \<Longrightarrow> row_get row key NaN64 = NaN64"
  using field_cases [of row key] by auto

lemma assess_status_fields:
  "assess_status row =
     assess_status_spec (field row ''SOH'') (field row ''Min Qty'') (field row ''Max Qty'')"
  using field_cases [of row "''SOH''"] field_cases [of row "''Min Qty''"]
        field_cases [of row "''Max Qty''"]
  by (auto simp add: assess_status_def assess_status_spec_def reorder_threshold_spec_def Let_def)

lemma row_a_fields:
  "field row_a ''SOH'' = Some (Fin 30)" "field row_a ''Min Qty'' = Some (Fin 50)"
  "field row_a ''Max Qty'' = Some (Fin 200)" "field row_a ''MOQ'' = Some (Fin 10)"
  "field row_a ''Minor Order Multiple'' = Some (Fin 5)"
  by (simp_all add: row_a_def field_def row_get_def)

lemma row_no_soh_fields:
  "field row_no_soh ''SOH'' = None" "field row_no_soh ''Min Qty'' = Some (Fin 50)"
  "field row_no_soh ''Max Qty'' = Some (Fin 200)" "field row_no_soh ''MOQ'' = Some (Fin 10)"
  "field row_no_soh ''Minor Order Multiple'' = Some (Fin 5)"
  by (simp_all add: row_no_soh_def field_def row_get_def)



text \<open>
  Claim C2, as amended. When on-hand, min and max are all present and on-hand is below
  min, the status is critical. (With max absent the status is the missing one, whatever
  on-hand and min are.)
\<close>

theorem assess_status_below_min:
  assumes "field row ''SOH'' = Some s" and "field row ''Min Qty'' = Some a"
    and "field row ''Max Qty'' = Some b" and "flt s a"
  shows "assess_status row = Critical_Below_Min"
  using assms by (simp add: assess_status_fields assess_status_spec_def)

theorem assess_status_below_min_witness:
  "field row_a ''SOH'' = Some (Fin 30) \<and> field row_a ''Min Qty'' = Some (Fin 50) \<and>
   field row_a ''Max Qty'' = Some (Fin 200) \<and> flt (Fin 30) (Fin 50) \<and>
   assess_status row_a = Critical_Below_Min"
  using assess_status_below_min [of row_a "Fin 30" "Fin 50" "Fin 200"] by (simp add: row_a_fields)

text \<open>
  Claim C2 as stated, without a hypothesis on max, fails on a row with on-hand 1, min 5
  and max absent: the status is the missing one.
\<close>

theorem assess_status_below_min_needs_max:
  "field row_no_max ''SOH'' = Some (Fin 1) \<and> field row_no_max ''Min Qty'' = Some (Fin 5) \<and>
   flt (Fin 1) (Fin 5) \<and>
   assess_status row_no_max = Missing_SOH \<and> assess_status row_no_max \<noteq> Critical_Below_Min"
  by (simp add: row_no_max_def field_def row_get_def assess_status_def)

lemma suggest_reorder_missing:
  assumes "field row ''SOH'' = None \<or> field row ''Min Qty'' = None \<or>
    field row ''Max Qty'' = None \<or> field row ''MOQ'' = None"
  shows "suggest_reorder row = Inr None"
  using assms by (auto simp add: suggest_reorder_def Let_def dest: nan_of_field)

lemma round_up_field:
  "(if \<not> pd_isna (row_get row key NaN64) \<and> fgt (row_get row key NaN64) (Fin 0)
    then fmul (np_ceil (fdiv base (row_get row key NaN64))) (row_get row key NaN64) else base)
   = round_up_spec (field row key) base"
  using field_cases [of row key] by (auto simp add: round_up_spec_def)

lemma py_int_truncate:
  "(case py_int x of Inl e \<Rightarrow> Inl e | Inr n \<Rightarrow> Inr (Some n)) = truncate_spec x"
  by (cases x) (simp_all add: truncate_spec_def)

lemma suggest_reorder_present:
  assumes "field row ''SOH'' = Some s" and "field row ''Min Qty'' = Some a"
    and "field row ''Max Qty'' = Some b" and "field row ''MOQ'' = Some q"
  shows "suggest_reorder row =
     (if flt s (reorder_threshold_spec a b)
      then truncate_spec (round_up_spec (field row ''Minor Order Multiple'') (py_max q (fsub a s)))
      else Inr None)"
proof -
  have g: "row_get row ''SOH'' NaN64 = s" "row_get row ''Min Qty'' NaN64 = a"
    "row_get row ''Max Qty'' NaN64 = b" "row_get row ''MOQ'' NaN64 = q"
    using assms by (simp_all add: value_of_field)
  have p: "\<not> pd_isna s" "\<not> pd_isna a" "\<not> pd_isna b" "\<not> pd_isna q"
    using assms value_of_field by blast+
  show ?thesis
    unfolding suggest_reorder_def Let_def g round_up_field py_int_truncate
    using p by (simp add: reorder_threshold_spec_def)
qed

lemma suggest_reorder_fields:
  "suggest_reorder row =
     suggest_reorder_spec (field row ''SOH'') (field row ''Min Qty'')
       (field row ''Max Qty'') (field row ''MOQ'') (field row ''Minor Order Multiple'')"
proof (cases "field row ''SOH'' = None \<or> field row ''Min Qty'' = None \<or>
    field row ''Max Qty'' = None \<or> field row ''MOQ'' = None")
  case True
  then show ?thesis
    by (auto simp add: suggest_reorder_missing suggest_reorder_spec_def split: option.splits)
next
  case False
  then obtain s a b q where f: "field row ''SOH'' = Some s" "field row ''Min Qty'' = Some a"
    "field row ''Max Qty'' = Some b" "field row ''MOQ'' = Some q"
    by auto
  show ?thesis
    by (simp add: suggest_reorder_present [OF f] suggest_reorder_spec_def f)
qed





text \<open>
  Claim C9. Whenever the classifier gives the missing status, that is, on-hand, min or max
  is absent, the suggester returns no suggestion for the same row.
\<close>

theorem missing_status_no_suggestion:
  "assess_status row = Missing_SOH \<Longrightarrow> suggest_reorder row = Inr None"
  unfolding assess_status_fields suggest_reorder_fields
  by (auto simp add: assess_status_spec_def suggest_reorder_spec_def
      split: option.splits if_splits)

theorem missing_status_no_suggestion_witness:
  "assess_status row_no_soh = Missing_SOH \<and> suggest_reorder row_no_soh = Inr None"
proof -
  have h: "assess_status row_no_soh = Missing_SOH"
    by (simp add: assess_status_fields row_no_soh_fields assess_status_spec_def)
  from h missing_status_no_suggestion [OF h] show ?thesis by simp
qed
















section \<open>Properties of the runout estimate\<close>




lemma numeric_forecasts_Cons:
  "numeric_forecasts row (c # cols) =
     ((\<exists>u. forecast_get row c (Float d) = Float u) \<and> numeric_forecasts row cols)"
  by (auto simp add: numeric_forecasts_def forecast_get_def split: option.splits entry.splits)

lemma runout_loop_step:
  assumes "\<not> fle r (Fin 0)" and "forecast_get row col (Float (Fin 0)) = Float u"
  shows "runout_loop row r i (col # cols) =
     (if fle (runout_step row r col) (Fin 0) then Inr (Num (real i))
      else runout_loop row (runout_step row r col) (Suc i) cols)"
  using assms by (simp add: runout_step_def Let_def)






section \<open>Properties of the purchase-order check\<close>

text \<open>
  Claim C7. The check answers not-applicable exactly when the runout period or the next
  arrival is absent; otherwise, with the runout date being today at midnight plus that
  many weeks, it answers yes when the arrival is on or before the runout date and no
  otherwise. It depends on nothing but its two inputs and the current time.
\<close>

theorem mitigates_oos_rule:
  "mitigates_oos now runout_period arrival =
     (if isna runout_period \<or> arrival = None then Not_Applicable
      else if the arrival \<le> normalize now + 7 * the (present runout_period) then Yes
      else No) \<and>
   (mitigates_oos now runout_period arrival = Not_Applicable) =
     (isna runout_period \<or> arrival = None)"
  by (cases runout_period; cases arrival) (simp_all add: mitigates_oos_def)

theorem mitigates_oos_rule_witness:
  "mitigates_oos (5 / 2) (Num 2) (Some 12) = Yes \<and> normalize (5 / 2) = 2 \<and>
   mitigates_oos (5 / 2) (Num 2) (Some 17) = No \<and>
   mitigates_oos (5 / 2) NaN (Some 12) = Not_Applicable"
  using mitigates_oos_rule [of "5 / 2" "Num 2" "Some 12"]
    mitigates_oos_rule [of "5 / 2" "Num 2" "Some 17"]
    mitigates_oos_rule [of "5 / 2" NaN "Some 12"]
  by (simp add: normalize_def)

section \<open>Properties of the coverage simulation\<close>

lemma numeric_usage:
  assumes "forecast_get row c (Float d) = Float u"
  shows "forecast_get row c (Float NaN64) = Float (usage_of row c)"
  using assms by (auto simp add: usage_of_def forecast_get_def split: option.splits)

lemma remaining_at_0 [simp]: "remaining_at row r cols 0 = r"
  by (simp add: remaining_at_def)

lemma remaining_at_Suc [simp]:
  "remaining_at row r (c # cols) (Suc i) = remaining_at row (cover_step row r c) cols i"
  by (simp add: remaining_at_def)

lemma coverage_spec_Nil [simp]: "coverage_spec row r [] = []"
  by (simp add: coverage_spec_def)

lemma coverage_spec_Cons:
  "coverage_spec row r (c # cols) =
     (if covered r (usage_of row c) then Check_Mark else Empty_Mark)
       # coverage_spec row (cover_step row r c) cols"
proof -
  have "[0..<length (c # cols)] = 0 # map Suc [0..<length cols]"
    by (simp add: upt_conv_Cons map_Suc_upt del: upt_Suc)
  then show ?thesis by (simp add: coverage_spec_def comp_def del: upt_Suc)
qed

lemma sim_loop_step:
  assumes "forecast_get row c (Float d) = Float u"
  shows "sim_loop row r (c # cols) =
     with_mark (if covered r (usage_of row c) then Check_Mark else Empty_Mark)
       (sim_loop row (cover_step row r c) cols)"
  by (simp add: numeric_usage [OF assms] covered_def cover_step_def)

lemma sim_loop_coverage:
  assumes "numeric_forecasts row cols"
  shows "sim_loop row r cols =
     Inr (remaining_at row r cols (length cols), coverage_spec row r cols)"
  using assms
proof (induction cols arbitrary: r)
  case Nil
  then show ?case by simp
next
  case (Cons c cols)
  from Cons.prems obtain u where u: "forecast_get row c (Float NaN64) = Float u"
    and rest: "numeric_forecasts row cols"
    unfolding numeric_forecasts_Cons [where d = NaN64] by blast
  show ?case
    unfolding sim_loop_step [OF u] Cons.IH [OF rest] coverage_spec_Cons by simp
qed

lemma all_empty_iff:
  "list_all (\<lambda>m. m = Empty_Mark) (coverage_spec row r cols) =
     (\<forall>c \<in> set cols. \<not> covered r (usage_of row c))"
proof (induction cols)
  case Nil
  then show ?case by simp
next
  case (Cons c cols)
  show ?case
  proof (cases "covered r (usage_of row c)")
    case True
    then show ?thesis by (auto simp add: coverage_spec_Cons)
  next
    case False
    then have "cover_step row r c = r" by (simp add: cover_step_def)
    then show ?thesis using False Cons.IH by (simp add: coverage_spec_Cons)
  qed
qed

lemma covered_prefix_Check [simp]: "covered_prefix (Check_Mark # ms) = Suc (covered_prefix ms)"
  by (simp add: covered_prefix_def)

lemma covered_prefix_Empty [simp]: "covered_prefix (Empty_Mark # ms) = 0"
  by (simp add: covered_prefix_def)

lemma all_after_Suc:
  "(\<forall>j. Suc k < j \<and> j < Suc n \<longrightarrow> Q j) = (\<forall>j. k < j \<and> j < n \<longrightarrow> Q (Suc j))"
proof
  assume l: "\<forall>j. Suc k < j \<and> j < Suc n \<longrightarrow> Q j"
  show "\<forall>j. k < j \<and> j < n \<longrightarrow> Q (Suc j)" using l by simp
next
  assume r: "\<forall>j. k < j \<and> j < n \<longrightarrow> Q (Suc j)"
  show "\<forall>j. Suc k < j \<and> j < Suc n \<longrightarrow> Q j"
  proof (intro allI impI)
    fix j assume j: "Suc k < j \<and> j < Suc n"
    then obtain j' where "j = Suc j'" by (cases j) simp_all
    with j r show "Q j" by simp
  qed
qed

lemma all_after_0:
  "(\<forall>j. 0 < j \<and> j < Suc (length cols) \<longrightarrow> Q ((c # cols) ! j)) = (\<forall>c' \<in> set cols. Q c')"
proof
  assume l: "\<forall>j. 0 < j \<and> j < Suc (length cols) \<longrightarrow> Q ((c # cols) ! j)"
  show "\<forall>c' \<in> set cols. Q c'"
  proof
    fix c' assume "c' \<in> set cols"
    then obtain i where "i < length cols" "cols ! i = c'" by (auto simp add: in_set_conv_nth)
    with l [rule_format, of "Suc i"] show "Q c'" by simp
  qed
next
  assume r: "\<forall>c' \<in> set cols. Q c'"
  show "\<forall>j. 0 < j \<and> j < Suc (length cols) \<longrightarrow> Q ((c # cols) ! j)"
  proof (intro allI impI)
    fix j assume j: "0 < j \<and> j < Suc (length cols)"
    then obtain j' where "j = Suc j'" by (cases j) simp_all
    with j r show "Q ((c # cols) ! j)" by simp
  qed
qed

lemma monotonic_iff:
  "marks_monotonic (coverage_spec row r cols) =
     (\<forall>j. covered_prefix (coverage_spec row r cols) < j \<and> j < length cols \<longrightarrow>
        \<not> covered (remaining_at row r cols (covered_prefix (coverage_spec row r cols)))
            (usage_of row (cols ! j)))"
proof (induction cols arbitrary: r)
  case Nil
  then show ?case by simp
next
  case (Cons c cols)
  show ?case
  proof (cases "covered r (usage_of row c)")
    case True
    then show ?thesis
      by (simp add: coverage_spec_Cons Cons.IH all_after_Suc)
  next
    case False
    then have stay: "cover_step row r c = r" by (simp add: cover_step_def)
    have marks: "coverage_spec row r (c # cols) = Empty_Mark # coverage_spec row r cols"
      using False by (simp add: coverage_spec_Cons stay)
    have lhs: "marks_monotonic (coverage_spec row r (c # cols)) =
        (\<forall>c' \<in> set cols. \<not> covered r (usage_of row c'))"
      unfolding marks by (simp add: all_empty_iff)
    have rhs: "(\<forall>j. 0 < j \<and> j < Suc (length cols) \<longrightarrow>
          \<not> covered r (usage_of row ((c # cols) ! j))) =
        (\<forall>c' \<in> set cols. \<not> covered r (usage_of row c'))"
      by (rule all_after_0 [where Q = "\<lambda>c'. \<not> covered r (usage_of row c')"])
    show ?thesis
      unfolding lhs rhs [symmetric] unfolding marks covered_prefix_Empty remaining_at_0 length_Cons ..
  qed
qed

lemma row_d_simulate: "simulate_runout row_d cols_d = Inr [Check_Mark, Check_Mark, Empty_Mark]"
  by (simp add: simulate_runout_def row_d_def cols_d_def row_get_def forecast_get_def fge_def)

text \<open>
  Claim C1, as amended. For a row whose forecast cells are floats, none of them text,
  \<open>simulate_runout\<close> marks a period covered exactly when remaining stock and usage are both
  present and the remaining stock is at least the usage; a covered period decrements the
  remaining stock by its usage, a period that is not covered leaves it as it is, and the
  scan goes on, so a later period is marked covered again when its usage fits. The marking
  is monotonic exactly when no period after the first one that is not covered has a usage
  that the stock remaining at that period covers.
\<close>

theorem simulate_runout_rule:
  assumes "numeric_forecasts row cols"
  shows "sim_loop row (row_get row ''SOH'' NaN64) cols =
       Inr (remaining_at row (row_get row ''SOH'' NaN64) cols (length cols),
            coverage_spec row (row_get row ''SOH'' NaN64) cols) \<and>
     simulate_runout row cols = Inr (coverage_spec row (row_get row ''SOH'' NaN64) cols) \<and>
     marks_monotonic (coverage_spec row (row_get row ''SOH'' NaN64) cols) =
       (\<forall>j. covered_prefix (coverage_spec row (row_get row ''SOH'' NaN64) cols) < j \<and>
            j < length cols \<longrightarrow>
          \<not> covered
              (remaining_at row (row_get row ''SOH'' NaN64) cols
                 (covered_prefix (coverage_spec row (row_get row ''SOH'' NaN64) cols)))
              (usage_of row (cols ! j)))"
  using sim_loop_coverage [OF assms, of "row_get row ''SOH'' NaN64"]
    monotonic_iff [of row "row_get row ''SOH'' NaN64" cols]
  by (simp add: simulate_runout_def)

theorem simulate_runout_rule_witness:
  "numeric_forecasts row_d cols_d \<and>
   simulate_runout row_d cols_d = Inr [Check_Mark, Check_Mark, Empty_Mark] \<and>
   coverage_spec row_d (Fin 100) cols_d = [Check_Mark, Check_Mark, Empty_Mark] \<and>
   marks_monotonic (coverage_spec row_d (Fin 100) cols_d)"
proof -
  have n: "numeric_forecasts row_d cols_d"
    by (simp add: numeric_forecasts_def row_d_def cols_d_def)
  have soh: "row_get row_d ''SOH'' NaN64 = Fin 100" by (simp add: row_d_def row_get_def)
  from simulate_runout_rule [OF n]
  have "coverage_spec row_d (Fin 100) cols_d = [Check_Mark, Check_Mark, Empty_Mark]"
    by (simp add: soh row_d_simulate)
  then show ?thesis using n by (simp add: row_d_simulate)
qed

text \<open>
  Claim C1 as stated fails on on-hand 10 with usages 20 and 5: the first period is not
  covered, the second is marked covered and decrements the remaining stock to 5.
\<close>

theorem simulate_runout_resumes:
  "sim_loop row_resume (row_get row_resume ''SOH'' NaN64) cols_resume =
     Inr (Fin 5, [Empty_Mark, Check_Mark]) \<and>
   simulate_runout row_resume cols_resume = Inr [Empty_Mark, Check_Mark] \<and>
   \<not> marks_monotonic [Empty_Mark, Check_Mark]"
  by (simp add: simulate_runout_def row_resume_def cols_resume_def row_get_def forecast_get_def
      fge_def)

section \<open>The two simulations at exact exhaustion\<close>

lemma finite_float_iff: "finite_float (Fin x) = (x * scale \<in> \<int>)"
  by (auto simp add: Ints_def)

declare finite_float.simps(1) [simp del]

lemma scale_int: "scale \<in> \<int>"
  by (simp add: scale_def)

lemma finite_float_of_int [simp]: "finite_float (Fin (of_int n))"
  by (simp add: finite_float_iff scale_int)

lemma finite_float_numeral [simp]: "finite_float (Fin (numeral k))"
  using finite_float_of_int [of "numeral k"] by simp

lemma fsub_finite_less:
  assumes "finite_float (Fin x)" and "finite_float (Fin y)" and "x < y"
  shows "flt (Fin 0) (fsub (Fin y) (Fin x)) \<and>
     (finite_float (fsub (Fin y) (Fin x)) \<or> fsub (Fin y) (Fin x) = PInf)"
proof -
  have "y * scale - x * scale \<in> \<int>"
    using assms(1,2) by (simp only: finite_float_iff Ints_diff)
  then have "(y - x) * scale \<in> \<int>" by (simp only: left_diff_distrib)
  then obtain k :: int where k: "(y - x) * scale = of_int k" by (auto elim: Ints_cases)
  have "0 < (y - x) * scale" using assms(3) by simp
  then have "0 < k" unfolding k by simp
  then have "1 \<le> k" by simp
  then have "(1::real) \<le> of_int k" by simp
  then have "1 \<le> (y - x) * scale" by (simp only: k)
  then have pos: "flt (Fin 0) (rnd (y - x))" by (rule rnd_pos)
  show ?thesis
  proof (cases "rnd (y - x)")
    case (Fin z)
    then have "z * scale \<in> \<int>" by (rule rnd_grid)
    then show ?thesis using pos Fin by (simp add: finite_float_iff)
  qed (use pos in simp_all)
qed

lemma finite_forecasts_Cons:
  "finite_forecasts row (c # cols) =
     ((\<exists>x. forecasts row c = Some (Float (Fin x)) \<and> finite_float (Fin x)) \<and>
      finite_forecasts row cols)"
proof -
  have "(case forecasts row c of Some (Float u) \<Rightarrow> finite_float u | _ \<Rightarrow> False) =
      (\<exists>x. forecasts row c = Some (Float (Fin x)) \<and> finite_float (Fin x))"
  proof (cases "forecasts row c")
    case (Some e)
    then show ?thesis
    proof (cases e)
      case (Float u)
      with Some show ?thesis by (cases u) simp_all
    qed simp
  qed simp
  then show ?thesis by (simp add: finite_forecasts_def)
qed

lemma finite_numeric: "finite_forecasts row cols \<Longrightarrow> numeric_forecasts row cols"
  by (induction cols) (auto simp add: finite_forecasts_Cons numeric_forecasts_def)

lemma running_stock_0 [simp]: "running_stock row r cols 0 = r"
  by (simp add: running_stock_def)

lemma running_stock_Suc [simp]:
  "running_stock row r (c # cols) (Suc j) = running_stock row (fsub r (usage_of row c)) cols j"
  by (simp add: running_stock_def)

lemma exact_exhaustion_loops:
  assumes "flt (Fin 0) r" and "finite_float r \<or> r = PInf"
    and "i < length cols" and "finite_forecasts row cols"
    and "\<forall>j < i. flt (usage_of row (cols ! j)) (running_stock row r cols j)"
    and "usage_of row (cols ! i) = running_stock row r cols i"
  shows "coverage_spec row r cols ! i = Check_Mark \<and>
     runout_loop row r n cols = Inr (Num (real (n + i)))"
  using assms
proof (induction cols arbitrary: r i n)
  case Nil
  then show ?case by simp
next
  case (Cons c cols)
  from Cons.prems(4) obtain x where fc: "forecasts row c = Some (Float (Fin x))"
    and fx: "finite_float (Fin x)" and rest: "finite_forecasts row cols"
    unfolding finite_forecasts_Cons by blast
  have u: "usage_of row c = Fin x" using fc by (simp add: usage_of_def forecast_get_def)
  have get: "forecast_get row c (Float (Fin 0)) = Float (Fin x)"
    using fc by (simp add: forecast_get_def)
  have nle: "\<not> fle r (Fin 0)" using Cons.prems(1) by (cases r) simp_all
  show ?case
  proof (cases i)
    case 0
    with Cons.prems(6) have r: "r = Fin x" by (simp add: u)
    have "covered r (usage_of row c)" by (simp add: covered_def u r fge_def)
    moreover have "fle (runout_step row r c) (Fin 0)"
      by (simp add: runout_step_def get r)
    ultimately show ?thesis
      unfolding coverage_spec_Cons runout_loop_step [OF nle get] using 0 by simp
  next
    case (Suc k)
    from Cons.prems(5) Suc have lt: "flt (Fin x) r" using u by fastforce
    then have cov: "covered r (usage_of row c)"
      by (cases r) (simp_all add: covered_def u fge_def)
    let ?r = "fsub r (Fin x)"
    have good: "flt (Fin 0) ?r \<and> (finite_float ?r \<or> ?r = PInf)"
    proof (cases r)
      case (Fin y)
      with lt Cons.prems(2) have "x < y" "finite_float (Fin y)" by simp_all
      from fsub_finite_less [OF fx this(2) this(1)] show ?thesis by (simp only: Fin)
    qed (use lt in simp_all)
    have step: "cover_step row r c = ?r" "runout_step row r c = ?r"
      using cov by (simp_all add: cover_step_def runout_step_def get u)
    have nle': "\<not> fle ?r (Fin 0)" using good by (cases ?r) simp_all
    have k: "k < length cols" using Cons.prems(3) Suc by simp
    have before: "\<forall>j < k. flt (usage_of row (cols ! j)) (running_stock row ?r cols j)"
    proof (intro allI impI)
      fix j assume "j < k"
      then have "Suc j < i" using Suc by simp
      with Cons.prems(5) have "flt (usage_of row ((c # cols) ! Suc j))
          (running_stock row r (c # cols) (Suc j))" by blast
      then show "flt (usage_of row (cols ! j)) (running_stock row ?r cols j)"
        by (simp add: u)
    qed
    have exact: "usage_of row (cols ! k) = running_stock row ?r cols k"
      using Cons.prems(6) Suc by (simp add: u)
    from Cons.IH [OF _ _ k rest before exact, of "Suc n"] good
    show ?thesis
      unfolding coverage_spec_Cons runout_loop_step [OF nle get] step
      using cov nle' Suc by simp
  qed
qed

text \<open>
  Claim C10, as amended. On exact exhaustion the two simulations disagree at the boundary
  period: for a row with a finite on-hand above zero and finite forecast usages, all
  64-bit floats, if every period before index \<open>i\<close> uses strictly less than the stock then
  remaining and period \<open>i\<close> uses exactly the stock then remaining (the remaining stock
  being the running float difference), the coverage simulation marks period \<open>i\<close> covered
  while the runout estimate returns \<open>i\<close>.
\<close>

theorem exact_exhaustion_disagree:
  assumes "quantities row ''SOH'' = Some soh" and "finite_float soh" and "flt (Fin 0) soh"
    and "i < length cols" and "finite_forecasts row cols"
    and "\<forall>j < i. flt (usage_of row (cols ! j)) (running_stock row soh cols j)"
    and "usage_of row (cols ! i) = running_stock row soh cols i"
  shows "(\<exists>ms. simulate_runout row cols = Inr ms \<and> ms ! i = Check_Mark) \<and>
     estimate_runout cols row = Inr (Num (real i))"
proof -
  have soh: "row_get row ''SOH'' NaN64 = soh" using assms(1) by (simp add: row_get_def)
  have ne: "cols \<noteq> []" using assms(4) by auto
  have nle: "\<not> fle soh (Fin 0)" using assms(3) by (cases soh) simp_all
  have fin: "finite_float soh \<or> soh = PInf" using assms(2) by simp
  from exact_exhaustion_loops [OF assms(3) fin assms(4-7), of 0]
  have loops: "coverage_spec row soh cols ! i = Check_Mark"
    "runout_loop row soh 0 cols = Inr (Num (real i))" by simp_all
  have "simulate_runout row cols = Inr (coverage_spec row soh cols)"
    using sim_loop_coverage [OF finite_numeric [OF assms(5)], of soh]
    by (simp add: simulate_runout_def soh)
  then show ?thesis
    using loops assms(1) ne nle by (simp add: estimate_runout_def)
qed

lemma row_exact_usage:
  "usage_of row_exact ''Jan-25'' = Fin 40" "usage_of row_exact ''Feb-25'' = Fin 60"
  "usage_of row_exact ''Mar-25'' = Fin 40"
  by (simp_all add: usage_of_def forecast_get_def row_exact_def)

theorem exact_exhaustion_disagree_witness:
  "quantities row_exact ''SOH'' = Some (Fin 100) \<and> finite_float (Fin 100) \<and>
   flt (Fin 0) (Fin 100) \<and> 1 < length cols_d \<and> finite_forecasts row_exact cols_d \<and>
   flt (usage_of row_exact (cols_d ! 0)) (running_stock row_exact (Fin 100) cols_d 0) \<and>
   usage_of row_exact (cols_d ! 1) = running_stock row_exact (Fin 100) cols_d 1 \<and>
   simulate_runout row_exact cols_d = Inr [Check_Mark, Check_Mark, Empty_Mark] \<and>
   estimate_runout cols_d row_exact = Inr (Num (real 1))"
proof -
  have h1: "quantities row_exact ''SOH'' = Some (Fin 100)" by (simp add: row_exact_def)
  have h2: "finite_float (Fin 100)" by (rule finite_float_numeral)
  have h3: "flt (Fin 0) (Fin 100)" by simp
  have h4: "1 < length cols_d" by (simp add: cols_d_def)
  have h5: "finite_forecasts row_exact cols_d"
    unfolding cols_d_def finite_forecasts_Cons by (simp add: row_exact_def finite_forecasts_def)
  have b0: "flt (usage_of row_exact (cols_d ! 0)) (running_stock row_exact (Fin 100) cols_d 0)"
    by (simp add: cols_d_def row_exact_usage)
  then have h6: "\<forall>j < 1. flt (usage_of row_exact (cols_d ! j))
      (running_stock row_exact (Fin 100) cols_d j)"
    by simp
  have h7: "usage_of row_exact (cols_d ! 1) = running_stock row_exact (Fin 100) cols_d 1"
    by (simp add: cols_d_def row_exact_usage running_stock_def)
  have sim: "simulate_runout row_exact cols_d = Inr [Check_Mark, Check_Mark, Empty_Mark]"
    by (simp add: simulate_runout_def row_exact_def cols_d_def row_get_def forecast_get_def
        fge_def)
  from exact_exhaustion_disagree [OF h1 h2 h3 h4 h5 h6 h7] h1 h2 h3 h4 h5 b0 h7 sim
  show ?thesis by simp
qed

text \<open>
  Claim C10 as stated fails on an infinite on-hand against one period of infinite usage:
  the usage equals the remaining stock and the period is marked covered, but the
  difference of the two infinities is \<open>np.nan\<close>, which is not at most zero, and the runout
  estimate is absent.
\<close>

theorem exact_exhaustion_infinite:
  "quantities row_inf ''SOH'' = Some PInf \<and> flt (Fin 0) PInf \<and>
   usage_of row_inf (cols_one ! 0) = running_stock row_inf PInf cols_one 0 \<and>
   simulate_runout row_inf cols_one = Inr [Check_Mark] \<and>
   estimate_runout cols_one row_inf = Inr NaN \<and>
   estimate_runout cols_one row_inf \<noteq> Inr (Num (real 0))"
  by (simp add: row_inf_def cols_one_def usage_of_def forecast_get_def simulate_runout_def
      row_get_def estimate_runout_def fge_def)

section \<open>Properties of the purchase-order index\<close>

text \<open>
  What the cleaning does keep and drop: a line without a parsed delivery date is dropped,
  no line is dropped for its SKU code, and the arrival stored for a SKU code is the
  earliest date among the lines kept under that code.
\<close>

lemma clean_po_never_drops_sku:
  "length (clean_po df_po) = length (filter (\<lambda>l. delivery_date l \<noteq> None) df_po)"
proof -
  have "filter (\<lambda>l. sku_code l \<noteq> None \<and> delivery_date l \<noteq> None) (map clean_sku df_po)
      = map clean_sku (filter (\<lambda>l. delivery_date l \<noteq> None) df_po)"
    by (induction df_po) (auto simp add: clean_sku_def astype_str_def split: option.splits)
  then show ?thesis by (simp add: clean_po_def dropna_def)
qed

lemma clean_po_dates: "l \<in> set (clean_po df_po) \<Longrightarrow> delivery_date l \<noteq> None"
  by (simp add: clean_po_def dropna_def)

lemma po_next_arrival_min:
  assumes "po_next_arrival df_po k = Some d"
  shows "d = Min ((\<lambda>l. the (delivery_date l)) ` set (group (clean_po df_po) k))"
proof -
  let ?ds = "map (\<lambda>l. the (delivery_date l)) (group (clean_po df_po) k)"
  from assms obtain e es where ds: "?ds = e # es" and d: "d = fold min es e"
    by (auto simp add: po_next_arrival_def split: list.splits)
  have "d = Min (set ?ds)" unfolding ds d by (simp only: Min.set_eq_fold)
  then show ?thesis by simp
qed

text \<open>
  Claim C8 says that a line whose SKU code is missing is dropped before aggregation. On a
  report of one line with an empty SKU code and a valid date, the line is kept: the
  conversion to strings has turned the missing code into the string \<open>nan\<close> before the
  rows with missing values are dropped, and the index has an entry under that key.
\<close>

theorem po_missing_sku_kept:
  "clean_po po_missing_sku =
     [\<lparr>sku_code = Some ''nan'', order_qty = Num 5, delivery_date = Some 100\<rparr>] \<and>
   po_next_arrival po_missing_sku ''nan'' = Some 100 \<and>
   po_next_qty po_missing_sku ''nan'' = Some 5"
  by (simp add: po_missing_sku_def clean_po_def dropna_def clean_sku_def astype_str_def
      strip_def is_space_def po_next_arrival_def po_next_qty_def group_def)

end
